theory Spec2Isabelle
  imports Main "HOL-Library.AList" "HOL-Library.Char_ord" "HOL-Library.List_Lexorder"
    "HOL-Library.Multiset"
begin

section \<open>Keyed collections and derived views (backend/models/proxy.py)\<close>

text \<open>
  A \<open>Model\<close> is an ordered, uniquely keyed mapping from keys to items that carries the
  identity (\<open>sync_id\<close>) under which it is registered. The contents are an association
  list in insertion order, as a Python dict keeps them. Items are values of an arbitrary
  type \<open>'v\<close>; read \<open>'v\<close> as the type of object references, so that two equal items are
  the same instance.
\<close>

record ('sid, 'k, 'v) Model =
  sync_id :: 'sid
  data :: "('k \<times> 'v) list"

text \<open>
  Modelled from the spec: \<open>Model.__setitem__\<close> (backend/models/model.py is not part of
  the source at hand). The spec's \<open>set(key, item)\<close> inserts or replaces: a present key
  keeps its position, an absent key is appended.
\<close>

definition Model_setitem ::
  "'k \<Rightarrow> 'v \<Rightarrow> ('sid, 'k, 'v, 'z) Model_scheme \<Rightarrow> ('sid, 'k, 'v, 'z) Model_scheme" where
  "Model_setitem key item self = self\<lparr>data := AList.update key item (data self)\<rparr>"

text \<open>
  Modelled from the spec: \<open>Model.__delitem__\<close> (backend/models/model.py is not part of
  the source at hand). The spec's \<open>delete(key)\<close> removes \<open>key\<close> if present and is a
  no-op, with no event, if absent.
\<close>

definition Model_delitem ::
  "'k \<Rightarrow> ('sid, 'k, 'v, 'z) Model_scheme \<Rightarrow> ('sid, 'k, 'v, 'z) Model_scheme" where
  "Model_delitem key self = self\<lparr>data := AList.delete key (data self)\<rparr>"

text \<open>
  Modelled from the spec: \<open>Model.items\<close> and \<open>Model.copy\<close>. Iterating a collection
  yields its entries in insertion order; iterating a copy yields the keys the collection
  had when the copy was taken.
\<close>

definition Model_items :: "('sid, 'k, 'v, 'z) Model_scheme \<Rightarrow> ('k \<times> 'v) list" where
  "Model_items self = data self"

definition Model_copy_keys :: "('sid, 'k, 'v, 'z) Model_scheme \<Rightarrow> 'k list" where
  "Model_copy_keys self = map fst (data self)"

text \<open>
  A \<open>ModelProxy\<close> is a \<open>Model\<close> whose keys are the composite keys
  \<open>(source.sync_id, key)\<close>. The method \<open>accept_source\<close> is overridable; it is a field
  of the record, and \<open>accept_source_default\<close> is the body the class itself gives it.
  The events that a write to the view sends on to further observers are raised by
  \<open>Model.__setitem__\<close> and \<open>Model.__delitem__\<close>; the model follows the contents of one
  view.
\<close>

record ('sid, 'k, 'v) ModelProxy = "('sid, 'sid \<times> 'k, 'v) Model" +
  accept_source :: "('sid, 'k, 'v) Model \<Rightarrow> bool"

definition accept_source_default :: "('sid, 'k, 'v) Model \<Rightarrow> bool" where
  "accept_source_default source = True"

definition source_item_set ::
  "('sid, 'k, 'v) Model \<Rightarrow> 'k \<Rightarrow> 'v \<Rightarrow> ('sid, 'k, 'v) ModelProxy \<Rightarrow> ('sid, 'k, 'v) ModelProxy" where
  "source_item_set source key val self =
     (if accept_source self source
      then Model_setitem (sync_id source, key) val self
      else self)"

definition source_item_deleted ::
  "('sid, 'k, 'v) Model \<Rightarrow> 'k \<Rightarrow> ('sid, 'k, 'v) ModelProxy \<Rightarrow> ('sid, 'k, 'v) ModelProxy" where
  "source_item_deleted source key self =
     (if accept_source self source
      then Model_delitem (sync_id source, key) self
      else self)"

definition source_cleared ::
  "('sid, 'k, 'v) Model \<Rightarrow> ('sid, 'k, 'v) ModelProxy \<Rightarrow> ('sid, 'k, 'v) ModelProxy" where
  "source_cleared source self =
     (if accept_source self source
      then fold (\<lambda>(source_sync_id, key) self.
                   if source_sync_id = sync_id source
                   then Model_delitem (source_sync_id, key) self
                   else self)
                (Model_copy_keys self) self
      else self)"

text \<open>
  The constructor. \<open>instances\<close> is the registry \<open>Model.instances\<close> as the loop finds
  it: a dict from identity to collection, in insertion order. The new view starts empty
  (\<open>super().__init__\<close>); an entry of the registry under the view's own identity is
  skipped by the guard of the loop.
\<close>

definition mirror_model ::
  "('sid, 'k, 'v) Model \<Rightarrow> ('sid, 'k, 'v) ModelProxy \<Rightarrow> ('sid, 'k, 'v) ModelProxy" where
  "mirror_model model self =
     fold (\<lambda>(key, item) self. source_item_set model key item self) (Model_items model) self"

definition ModelProxy_init ::
  "'sid \<Rightarrow> (('sid, 'k, 'v) Model \<Rightarrow> bool) \<Rightarrow> ('sid \<times> ('sid, 'k, 'v) Model) list
     \<Rightarrow> ('sid, 'k, 'v) ModelProxy" where
  "ModelProxy_init sid accept instances =
     fold (\<lambda>(sync_id', model) self.
             if sync_id' \<noteq> sync_id self \<and> accept_source self model
             then mirror_model model self
             else self)
          instances
          \<lparr>sync_id = sid, data = [], accept_source = accept\<rparr>"

text \<open>
  The invariant of the registry: it is a dict, so no identity occurs twice; every
  collection is registered under its own identity; and no key occurs twice in one
  collection.
\<close>

definition registry_ok :: "('sid \<times> ('sid, 'k, 'v) Model) list \<Rightarrow> bool" where
  "registry_ok instances =
     (distinct (map fst instances) \<and>
      list_all (\<lambda>(sid, model). sync_id model = sid \<and> distinct (map fst (data model))) instances)"

section \<open>The backend (backend/backend.py)\<close>

subsection \<open>State\<close>

text \<open>
  Exceptions are values: \<open>MatrixError\<close> is the error class \<open>login_client\<close> catches,
  \<open>KeyError\<close> is raised by a dict subscript on a missing key, \<open>OtherError\<close> is any
  other exception.
\<close>

datatype error = MatrixError string | KeyError string | OtherError string

text \<open>
  A client object is identified by the arguments of its constructor
  (\<open>MatrixClient(backend, user, homeserver, device_id)\<close>). What the methods of the class
  do (matrix_client.py is not part of the source at hand) enters every operation as an
  argument: the outcome of the call the operation awaits.
\<close>

record MatrixClient =
  user :: string
  homeserver :: string
  device_id :: "string option"

record Account =
  user_id :: string

record Room =
  room_id :: string

datatype SyncId = Account_key | Room_key string

text \<open>
  The fields of \<open>Backend\<close> that the operations below read or write: \<open>clients\<close> is a
  dict in insertion order, \<open>models_Account\<close> is the collection \<open>self.models[Account]\<close>
  and \<open>models_Room u\<close> the collection \<open>self.models[Room, u]\<close>, which the store creates
  empty on first access.
\<close>

record Backend =
  clients :: "(string \<times> MatrixClient) list"
  models_Account :: "(SyncId, string, Account) Model"
  models_Room :: "string \<Rightarrow> (SyncId, string, Room) Model"

definition Backend_init :: Backend where
  "Backend_init =
     \<lparr>clients = [],
      models_Account = \<lparr>sync_id = Account_key, data = []\<rparr>,
      models_Room = (\<lambda>u. \<lparr>sync_id = Room_key u, data = []\<rparr>)\<rparr>"

text \<open>
  Calls to the collaborators, in the order they are made: closing and logging out a
  client, deleting a saved account, a logged warning (with the number of seconds it
  reports) and a sleep (in milliseconds).
\<close>

datatype effect =
    ClientClose MatrixClient
  | ClientLogout MatrixClient
  | SavedAccountsDelete string
  | WarnClientNotFound string nat
  | WarnNoHealthyClient nat
  | Sleep nat

subsection \<open>Clients management\<close>

text \<open>
  \<open>login_result\<close> is what \<open>await client.login(password)\<close> does: it raises, or it
  returns and leaves \<open>client.user_id\<close> set to the given user id.
\<close>

definition login_client ::
  "string \<Rightarrow> string \<Rightarrow> string option \<Rightarrow> string \<Rightarrow> error + string \<Rightarrow> Backend
     \<Rightarrow> (error + string) \<times> Backend \<times> effect list" where
  "login_client user' password device_id' homeserver' login_result self =
     (let client = \<lparr>user = user', homeserver = homeserver', device_id = device_id'\<rparr> in
      case login_result of
        Inl (MatrixError m) \<Rightarrow> (Inl (MatrixError m), self, [ClientClose client])
      | Inl e \<Rightarrow> (Inl e, self, [])
      | Inr client_user_id \<Rightarrow>
          (let self1 = self\<lparr>clients := AList.update client_user_id client (clients self)\<rparr>;
               self2 = self1\<lparr>models_Account :=
                          Model_setitem client_user_id \<lparr>user_id = client_user_id\<rparr>
                            (models_Account self1)\<rparr>
           in (Inr client_user_id, self2, [])))"

text \<open>
  \<open>resume_result\<close> is what \<open>await client.resume(...)\<close> does: \<open>Some e\<close> when it raises
  \<open>e\<close>. The client is registered before the call.
\<close>

definition resume_client ::
  "string \<Rightarrow> string \<Rightarrow> string \<Rightarrow> string \<Rightarrow> error option \<Rightarrow> Backend
     \<Rightarrow> (error + unit) \<times> Backend" where
  "resume_client user_id' token device_id' homeserver' resume_result self =
     (let client = \<lparr>user = user_id', homeserver = homeserver', device_id = Some device_id'\<rparr>;
          self1 = self\<lparr>clients := AList.update user_id' client (clients self)\<rparr>;
          self2 = self1\<lparr>models_Account :=
                     Model_setitem user_id' \<lparr>user_id = user_id'\<rparr> (models_Account self1)\<rparr>
      in (case resume_result of Some e \<Rightarrow> Inl e | None \<Rightarrow> Inr (), self2))"

text \<open>
  \<open>logout_result\<close> and \<open>delete_result\<close> are what \<open>await client.logout()\<close> and
  \<open>await self.saved_accounts.delete(user_id)\<close> do. A client object is truthy, so
  \<open>if client\<close> tests that \<open>pop\<close> found one.
\<close>

definition logout_client ::
  "string \<Rightarrow> error option \<Rightarrow> error option \<Rightarrow> Backend
     \<Rightarrow> (error + unit) \<times> Backend \<times> effect list" where
  "logout_client user_id' logout_result delete_result self =
     (let client = map_of (clients self) user_id';
          self1 = self\<lparr>clients := AList.delete user_id' (clients self)\<rparr>;
          saved_delete = (\<lambda>self trace.
            (case delete_result of Some e \<Rightarrow> Inl e | None \<Rightarrow> Inr (),
             self, trace @ [SavedAccountsDelete user_id']))
      in case client of
           Some c \<Rightarrow>
             (let self2 = self1\<lparr>models_Account :=
                             Model_delitem user_id' (models_Account self1)\<rparr>
              in case logout_result of
                   Some e \<Rightarrow> (Inl e, self2, [ClientLogout c])
                 | None \<Rightarrow> saved_delete self2 [ClientLogout c])
         | None \<Rightarrow> saved_delete self1 [])"

text \<open>
  A sequence of client-management calls, each with the outcome of the call it awaits.
  A call that raises leaves the backend as it was when the exception left the method,
  and the next call of the sequence runs on that backend.
\<close>

datatype operation =
    Login string string "string option" string "error + string"
  | Resume string string string string "error option"
  | Logout string "error option" "error option"

fun run_operation :: "operation \<Rightarrow> Backend \<Rightarrow> Backend" where
  "run_operation (Login u p d h r) self = fst (snd (login_client u p d h r self))"
| "run_operation (Resume u t d h r) self = snd (resume_client u t d h r self)"
| "run_operation (Logout u r r') self = fst (snd (logout_client u r r' self))"

definition run_operations :: "operation list \<Rightarrow> Backend \<Rightarrow> Backend" where
  "run_operations ops self = fold run_operation ops self"

definition lockstep :: "Backend \<Rightarrow> bool" where
  "lockstep self = (fst ` set (clients self) = fst ` set (data (models_Account self)))"


subsection \<open>Resuming the saved accounts\<close>

text \<open>
  \<open>asyncio.gather\<close> with its default \<open>return_exceptions=False\<close>. Every awaitable is
  given by the instant at which it finishes and by its outcome. If none raises, the
  result is the list of the results in the order of the arguments. Otherwise the first
  exception raised (the earliest instant; among equal instants the earlier argument) is
  propagated to the caller of \<open>gather\<close>; the other awaitables are not cancelled.
\<close>

definition gather :: "(nat \<times> (error + 'a)) list \<Rightarrow> error + 'a list" where
  "gather aws =
     (case filter (\<lambda>(t, r). isl r) aws of
        [] \<Rightarrow> Inr (map (\<lambda>(t, r). projr r) aws)
      | f # fs \<Rightarrow> Inl (projl (snd (arg_min_list fst (f # fs)))))"

text \<open>
  The inner coroutine \<open>resume(user_id, info)\<close>. \<open>info\<close> is a dict of strings; a
  subscript on a missing key raises \<open>KeyError\<close> before \<open>resume_client\<close> is called, at
  instant \<open>0\<close>. \<open>client_resume user_id\<close> is the instant at which
  \<open>await client.resume(...)\<close> finishes for that account, and what it does.
\<close>

definition resume ::
  "(string \<Rightarrow> nat \<times> error option) \<Rightarrow> string \<Rightarrow> (string \<times> string) list \<Rightarrow> Backend
     \<Rightarrow> (nat \<times> (error + string)) \<times> Backend" where
  "resume client_resume user_id' info self =
     (case map_of info ''token'' of
        None \<Rightarrow> ((0, Inl (KeyError ''token'')), self)
      | Some token \<Rightarrow>
     (case map_of info ''device_id'' of
        None \<Rightarrow> ((0, Inl (KeyError ''device_id'')), self)
      | Some device_id' \<Rightarrow>
     (case map_of info ''homeserver'' of
        None \<Rightarrow> ((0, Inl (KeyError ''homeserver'')), self)
      | Some homeserver' \<Rightarrow>
          (case resume_client user_id' token device_id' homeserver'
                  (snd (client_resume user_id')) self of
             (Inl e, self') \<Rightarrow> ((fst (client_resume user_id'), Inl e), self')
           | (Inr _, self') \<Rightarrow> ((fst (client_resume user_id'), Inr user_id'), self')))))"

text \<open>
  \<open>load_saved_accounts\<close>: \<open>saved\<close> is the dict that \<open>self.saved_accounts.read()\<close>
  returns. Every coroutine runs up to its first suspension, which registers its client,
  in the order of the dict; the outcomes are then gathered.
\<close>

fun resume_all ::
  "(string \<Rightarrow> nat \<times> error option) \<Rightarrow> (string \<times> (string \<times> string) list) list \<Rightarrow> Backend
     \<Rightarrow> (nat \<times> (error + string)) list \<times> Backend" where
  "resume_all client_resume [] self = ([], self)"
| "resume_all client_resume ((uid, info) # rest) self =
     (case resume client_resume uid info self of
        (r, self') \<Rightarrow>
          (case resume_all client_resume rest self' of
             (rs, self'') \<Rightarrow> (r # rs, self'')))"

definition load_saved_accounts ::
  "(string \<Rightarrow> nat \<times> error option) \<Rightarrow> (string \<times> (string \<times> string) list) list \<Rightarrow> Backend
     \<Rightarrow> (error + string list) \<times> Backend" where
  "load_saved_accounts client_resume saved self =
     (case resume_all client_resume saved self of
        (rs, self') \<Rightarrow> (gather rs, self'))"

text \<open>
  How the resume of one saved account ends: \<open>Some e\<close> when it raises \<open>e\<close>, either
  for a key that \<open>info\<close> lacks or from \<open>client.resume\<close>.
\<close>

definition resume_failure ::
  "(string \<Rightarrow> nat \<times> error option) \<Rightarrow> string \<Rightarrow> (string \<times> string) list \<Rightarrow> error option" where
  "resume_failure client_resume user_id' info =
     (if map_of info ''token'' = None then Some (KeyError ''token'')
      else if map_of info ''device_id'' = None then Some (KeyError ''device_id'')
      else if map_of info ''homeserver'' = None then Some (KeyError ''homeserver'')
      else snd (client_resume user_id'))"

text \<open>
  Whether \<open>info\<close> has the three keys that \<open>resume\<close> reads, and the instant at which
  the resume of one saved account ends.
\<close>

definition info_complete :: "(string \<times> string) list \<Rightarrow> bool" where
  "info_complete info =
     (map_of info ''token'' \<noteq> None \<and> map_of info ''device_id'' \<noteq> None
      \<and> map_of info ''homeserver'' \<noteq> None)"

definition resume_instant ::
  "(string \<Rightarrow> nat \<times> error option) \<Rightarrow> string \<Rightarrow> (string \<times> string) list \<Rightarrow> nat" where
  "resume_instant client_resume user_id' info =
     (if info_complete info then fst (client_resume user_id') else 0)"

text \<open>
  The account \<open>x\<close> of \<open>pre @ x # post\<close> is the first to fail: it fails, every account
  before it in the dict that fails does so later, and every account after it that fails
  does so no earlier.
\<close>

definition first_to_fail ::
  "(string \<Rightarrow> nat \<times> error option) \<Rightarrow> (string \<times> (string \<times> string) list) list
     \<Rightarrow> string \<times> (string \<times> string) list \<Rightarrow> (string \<times> (string \<times> string) list) list \<Rightarrow> bool" where
  "first_to_fail client_resume pre x post =
     (resume_failure client_resume (fst x) (snd x) \<noteq> None
      \<and> list_all (\<lambda>y. resume_failure client_resume (fst y) (snd y) = None
                      \<or> resume_instant client_resume (fst x) (snd x)
                          < resume_instant client_resume (fst y) (snd y)) pre
      \<and> list_all (\<lambda>y. resume_failure client_resume (fst y) (snd y) = None
                      \<or> resume_instant client_resume (fst x) (snd x)
                          \<le> resume_instant client_resume (fst y) (snd y)) post)"

text \<open>
  An example: three saved accounts with complete details, where the resume of the second
  one fails at instant 1 and the two others succeed at instant 2.
\<close>

definition saved_accounts_example :: "(string \<times> (string \<times> string) list) list" where
  "saved_accounts_example =
     [(''@a1:x'', [(''token'', ''t1''), (''device_id'', ''d1''), (''homeserver'', ''h'')]),
      (''@a2:x'', [(''token'', ''t2''), (''device_id'', ''d2''), (''homeserver'', ''h'')]),
      (''@a3:x'', [(''token'', ''t3''), (''device_id'', ''d3''), (''homeserver'', ''h'')])]"

definition client_resume_example :: "string \<Rightarrow> nat \<times> error option" where
  "client_resume_example user_id' =
     (if user_id' = ''@a2:x'' then (1, Some (MatrixError ''M_UNKNOWN_TOKEN'')) else (2, None))"

text \<open>
  A second example, on the same accounts: the second one fails at instant 3 and the
  third one at instant 1.
\<close>

definition client_resume_example2 :: "string \<Rightarrow> nat \<times> error option" where
  "client_resume_example2 user_id' =
     (if user_id' = ''@a2:x'' then (3, Some (MatrixError ''M_LATE''))
      else if user_id' = ''@a3:x'' then (1, Some (MatrixError ''M_EARLY''))
      else (2, None))"

subsection \<open>Waiting for a client\<close>

text \<open>
  \<open>get_client\<close> suspends in \<open>asyncio.sleep\<close>, and other tasks change \<open>self.clients\<close>
  meanwhile: \<open>clients_at n\<close> is the dict as the check made after \<open>n\<close> sleeps finds it.
  The loop has no exit but the \<open>return\<close>; a call that never returns is \<open>None\<close>.
\<close>

partial_function (option) get_client_loop ::
  "(nat \<Rightarrow> (string \<times> MatrixClient) list) \<Rightarrow> string \<Rightarrow> nat \<Rightarrow> effect list
     \<Rightarrow> (MatrixClient \<times> effect list) option" where
  "get_client_loop clients_at user_id' failures trace =
     (case map_of (clients_at failures) user_id' of
        Some client \<Rightarrow> Some (client, trace)
      | None \<Rightarrow>
          get_client_loop clients_at user_id' (failures + 1)
            (trace
             @ (if failures \<noteq> 0 \<and> failures mod 100 = 0
                then [WarnClientNotFound user_id' (failures div 10)] else [])
             @ [Sleep 100]))"

definition get_client ::
  "(nat \<Rightarrow> (string \<times> MatrixClient) list) \<Rightarrow> string \<Rightarrow> (MatrixClient \<times> effect list) option" where
  "get_client clients_at user_id' = get_client_loop clients_at user_id' 0 []"

text \<open>
  \<open>get_any_client\<close> reads \<open>client.syncing\<close> of every registered client: here
  \<open>clients_at n\<close> gives every client of the dict with the value of its \<open>syncing\<close>
  attribute at the check made after \<open>n\<close> sleeps.
\<close>

definition first_syncing :: "(string \<times> MatrixClient \<times> bool) list \<Rightarrow> MatrixClient option" where
  "first_syncing cs = map_option fst (find (\<lambda>(client, syncing). syncing) (map snd cs))"

partial_function (option) get_any_client_loop ::
  "(nat \<Rightarrow> (string \<times> MatrixClient \<times> bool) list) \<Rightarrow> nat \<Rightarrow> effect list
     \<Rightarrow> (MatrixClient \<times> effect list) option" where
  "get_any_client_loop clients_at failures trace =
     (case first_syncing (clients_at failures) of
        Some client \<Rightarrow> Some (client, trace)
      | None \<Rightarrow>
          get_any_client_loop clients_at (failures + 1)
            (trace
             @ (if failures \<noteq> 0 \<and> failures mod 300 = 0
                then [WarnNoHealthyClient (failures div 10)] else [])
             @ [Sleep 100]))"

definition get_any_client ::
  "(nat \<Rightarrow> (string \<times> MatrixClient \<times> bool) list) \<Rightarrow> (MatrixClient \<times> effect list) option" where
  "get_any_client clients_at = get_any_client_loop clients_at 0 []"

text \<open>
  What a call has done by the time it makes the check after \<open>n\<close> sleeps: a sleep of
  100 ms after each failed check, preceded by a warning at every \<open>every\<close>-th failure.
\<close>

definition polls :: "(nat \<Rightarrow> effect) \<Rightarrow> nat \<Rightarrow> nat \<Rightarrow> effect list" where
  "polls warning every n =
     concat (map (\<lambda>failures.
                    (if failures \<noteq> 0 \<and> failures mod every = 0
                     then [warning (failures div 10)] else [])
                    @ [Sleep 100])
                 [0..<n])"

subsection \<open>The profile cache\<close>

text \<open>
  \<open>get_profile\<close> suspends while it waits for the lock and while it awaits
  \<open>get_any_client\<close> and \<open>client.get_profile\<close>; calls made concurrently interleave at
  these points and nowhere else. A call is at one of four places: not yet started;
  suspended in \<open>async with self.get_profile_locks[user_id]\<close>; holding the lock and
  awaiting the client and its response; returned, with a response or an exception.
\<close>

datatype call_state =
    Called string
  | WaitLock string
  | Fetching string
  | Returned "error + string"

text \<open>
  An \<open>asyncio.Lock\<close>: whether it is held, and the calls suspended in \<open>acquire\<close>, in
  the order in which they arrived. \<open>acquire\<close> takes the lock without suspending only if
  it is not held and nobody waits for it; \<open>release\<close> wakes the first waiter, and no
  other call can take the lock before that waiter does.
\<close>

record Lock =
  locked :: bool
  waiters :: "nat list"

text \<open>
  The state that the calls share: the cache, the locks (a \<open>DefaultDict\<close>, so every
  user id has a lock, unlocked and without waiters at first), and the calls themselves.
  \<open>fetches\<close> records every fetch that is started: the user id, and whether the cache
  held a profile for that user id at that moment.
\<close>

record ProfileState =
  profile_cache :: "(string \<times> string) list"
  get_profile_locks :: "string \<Rightarrow> Lock"
  calls :: "call_state list"
  fetches :: "(string \<times> bool) list"

text \<open>
  Call \<open>i\<close> takes the lock of \<open>user_id\<close>, which leaves \<open>ws\<close> waiting, and starts to
  fetch.
\<close>

definition acquire_and_fetch :: "nat \<Rightarrow> string \<Rightarrow> nat list \<Rightarrow> ProfileState \<Rightarrow> ProfileState" where
  "acquire_and_fetch i user_id' ws s =
     s\<lparr>get_profile_locks := (get_profile_locks s)(user_id' := \<lparr>locked = True, waiters = ws\<rparr>),
       calls := (calls s)[i := Fetching user_id'],
       fetches := fetches s @ [(user_id', map_of (profile_cache s) user_id' \<noteq> None)]\<rparr>"

definition release :: "string \<Rightarrow> ProfileState \<Rightarrow> ProfileState" where
  "release user_id' s =
     s\<lparr>get_profile_locks :=
         (get_profile_locks s)(user_id' := (get_profile_locks s user_id')\<lparr>locked := False\<rparr>)\<rparr>"

text \<open>
  One step of call \<open>i\<close>: the code it runs until it suspends again or returns.
  \<open>response\<close> is what \<open>client.get_profile\<close> answers when the step is the end of a
  fetch: a profile, or a \<open>ProfileGetError\<close>, which is raised as a \<open>MatrixError\<close>. The
  lock is released on both ways out of the \<open>async with\<close> block. A call that cannot
  move (it waits for a lock that is held or that is due to an earlier waiter, or it has
  returned) is left as it is.
\<close>

definition get_profile_step :: "nat \<Rightarrow> error + string \<Rightarrow> ProfileState \<Rightarrow> ProfileState" where
  "get_profile_step i response s =
     (if i < length (calls s) then
        (case calls s ! i of
           Called user_id' \<Rightarrow>
             (case map_of (profile_cache s) user_id' of
                Some cached \<Rightarrow> s\<lparr>calls := (calls s)[i := Returned (Inr cached)]\<rparr>
              | None \<Rightarrow>
                  (let lock = get_profile_locks s user_id' in
                   if \<not> locked lock \<and> waiters lock = []
                   then acquire_and_fetch i user_id' [] s
                   else s\<lparr>get_profile_locks :=
                            (get_profile_locks s)(user_id' := lock\<lparr>waiters := waiters lock @ [i]\<rparr>),
                          calls := (calls s)[i := WaitLock user_id']\<rparr>))
         | WaitLock user_id' \<Rightarrow>
             (let lock = get_profile_locks s user_id' in
              case waiters lock of
                [] \<Rightarrow> s
              | w # ws \<Rightarrow>
                  if \<not> locked lock \<and> w = i then acquire_and_fetch i user_id' ws s else s)
         | Fetching user_id' \<Rightarrow>
             (case response of
                Inl e \<Rightarrow> release user_id' (s\<lparr>calls := (calls s)[i := Returned (Inl e)]\<rparr>)
              | Inr profile \<Rightarrow>
                  release user_id'
                    (s\<lparr>profile_cache := AList.update user_id' profile (profile_cache s),
                       calls := (calls s)[i := Returned (Inr profile)]\<rparr>))
         | Returned r \<Rightarrow> s)
      else s)"

definition get_profile_run :: "(nat \<times> (error + string)) list \<Rightarrow> ProfileState \<Rightarrow> ProfileState" where
  "get_profile_run schedule s = fold (\<lambda>(i, response). get_profile_step i response) schedule s"

text \<open>The calls \<open>get_profile(u)\<close> for the user ids of \<open>us\<close>, made on an empty cache.\<close>

definition get_profile_calls :: "string list \<Rightarrow> ProfileState" where
  "get_profile_calls us =
     \<lparr>profile_cache = [],
      get_profile_locks = (\<lambda>u. \<lparr>locked = False, waiters = []\<rparr>),
      calls = map Called us,
      fetches = []\<rparr>"

definition in_flight :: "string \<Rightarrow> ProfileState \<Rightarrow> nat" where
  "in_flight user_id' s = length (filter (\<lambda>c. c = Fetching user_id') (calls s))"

text \<open>
  The lock of a user id is held exactly when one call is fetching for that user id, and
  then by that call alone.
\<close>

definition lock_held_by_fetch :: "ProfileState \<Rightarrow> bool" where
  "lock_held_by_fetch s =
     (\<forall>u. in_flight u s = (if locked (get_profile_locks s u) then 1 else 0))"

subsection \<open>The data of the main pane\<close>

text \<open>
  A value of the dicts that \<open>get_flat_mainpane_data\<close> builds: a string, or the
  serialized form of an item, which the parameters \<open>account_serialized\<close> and
  \<open>room_serialized\<close> give (\<open>ModelItem.serialized\<close>, models/items.py, is not part of the
  source at hand).
\<close>

datatype 'd field = Str string | Data 'd

text \<open>
  Modelled from the spec: the order of the items, which \<open>sorted\<close> uses
  (\<open>__lt__\<close> of models/items.py is not part of the source at hand). The spec sorts the
  accounts by account identity and the rooms by room identity. \<open>sorted\<close> is stable.
\<close>

definition sorted_accounts :: "Account list \<Rightarrow> Account list" where
  "sorted_accounts = sort_key user_id"

definition sorted_rooms :: "Room list \<Rightarrow> Room list" where
  "sorted_rooms = sort_key room_id"

definition Model_values :: "('sid, 'k, 'v, 'z) Model_scheme \<Rightarrow> 'v list" where
  "Model_values self = map snd (data self)"

definition account_row :: "(Account \<Rightarrow> 'd) \<Rightarrow> Account \<Rightarrow> (string \<times> 'd field) list" where
  "account_row account_serialized account =
     [(''type'', Str ''Account''),
      (''id'', Str (user_id account)),
      (''user_id'', Str (user_id account)),
      (''data'', Data (account_serialized account))]"

definition room_row :: "(Room \<Rightarrow> 'd) \<Rightarrow> Account \<Rightarrow> Room \<Rightarrow> (string \<times> 'd field) list" where
  "room_row room_serialized account room =
     [(''type'', Str ''Room''),
      (''id'', Str (user_id account @ ''/'' @ room_id room)),
      (''user_id'', Str (user_id account)),
      (''data'', Data (room_serialized room))]"

definition get_flat_mainpane_data ::
  "(Account \<Rightarrow> 'd) \<Rightarrow> (Room \<Rightarrow> 'd) \<Rightarrow> Backend \<Rightarrow> (string \<times> 'd field) list list" where
  "get_flat_mainpane_data account_serialized room_serialized self =
     fold (\<lambda>account rows.
             fold (\<lambda>room rows. rows @ [room_row room_serialized account room])
                  (sorted_rooms (Model_values (models_Room self (user_id account))))
                  (rows @ [account_row account_serialized account]))
          (sorted_accounts (Model_values (models_Account self)))
          []"

section \<open>Properties of the derived views\<close>

lemma map_of_rev_distinct:
  "distinct (map fst xs) \<Longrightarrow> map_of (rev xs) = map_of xs"
  by (simp add: map_of_inject_set rev_map [symmetric])

lemma dom_delete: "fst ` set (AList.delete k al) = fst ` set al - {k}"
  by (induction al) auto

subsection \<open>Deleting\<close>

text \<open>
  C3. A deletion event for a key that was never mirrored leaves the view as it is:
  when the composite key \<open>(source.sync_id, key)\<close> is absent from the view,
  \<open>source_item_deleted\<close> returns the view unchanged, whether or not the source is
  accepted. The deletion is the spec's \<open>delete(key)\<close>, which has no failure.
\<close>

theorem source_item_deleted_absent:
  "(sync_id source, key) \<notin> fst ` set (data self) \<Longrightarrow> source_item_deleted source key self = self"
  by (simp add: source_item_deleted_def Model_delitem_def)

theorem source_item_deleted_absent_witness:
  "(sync_id \<lparr>sync_id = Room_key ''@a:x'', data = [(''!r1'', \<lparr>room_id = ''!r1''\<rparr>)]\<rparr>, ''!r2'')
     \<notin> fst ` set (data \<lparr>sync_id = Account_key,
                          data = [((Room_key ''@a:x'', ''!r1''), \<lparr>room_id = ''!r1''\<rparr>)],
                          accept_source = accept_source_default\<rparr>)
   \<and> source_item_deleted
         \<lparr>sync_id = Room_key ''@a:x'', data = [(''!r1'', \<lparr>room_id = ''!r1''\<rparr>)]\<rparr> ''!r2''
         \<lparr>sync_id = Account_key,
          data = [((Room_key ''@a:x'', ''!r1''), \<lparr>room_id = ''!r1''\<rparr>)],
          accept_source = accept_source_default\<rparr>
     = \<lparr>sync_id = Account_key,
        data = [((Room_key ''@a:x'', ''!r1''), \<lparr>room_id = ''!r1''\<rparr>)],
        accept_source = accept_source_default\<rparr>"
  using source_item_deleted_absent
    [of "\<lparr>sync_id = Room_key ''@a:x'', data = [(''!r1'', \<lparr>room_id = ''!r1''\<rparr>)]\<rparr>" "''!r2''"
        "\<lparr>sync_id = Account_key,
          data = [((Room_key ''@a:x'', ''!r1''), \<lparr>room_id = ''!r1''\<rparr>)],
          accept_source = accept_source_default\<rparr>"]
  by simp

subsection \<open>Clearing\<close>

lemma clear_fold:
  "fold (\<lambda>(s, key) self. if s = sid then Model_delitem (s, key) self else self) ks
        (self :: ('sid, 'k, 'v) ModelProxy)
     = self\<lparr>data := filter (\<lambda>(ck, item). \<not> (fst ck = sid \<and> ck \<in> set ks)) (data self)\<rparr>"
proof (induction ks arbitrary: self)
  case Nil
  then show ?case by simp
next
  case (Cons ck ks)
  obtain s key where ck: "ck = (s, key)" by (cases ck)
  show ?case
  proof (cases "s = sid")
    case True
    have "filter (\<lambda>(ck', item). \<not> (fst ck' = sid \<and> ck' \<in> set ks)) (AList.delete (s, key) (data self))
        = filter (\<lambda>(ck', item). \<not> (fst ck' = sid \<and> ck' \<in> set ((s, key) # ks))) (data self)"
      using True by (induction "data self" arbitrary: self) (auto simp: AList.delete_eq intro!: filter_cong)
    then show ?thesis using True ck Cons.IH [of "Model_delitem (s, key) self"]
      by (simp add: Model_delitem_def)
  next
    case False
    have "filter (\<lambda>(ck', item). \<not> (fst ck' = sid \<and> ck' \<in> set ks)) (data self)
        = filter (\<lambda>(ck', item). \<not> (fst ck' = sid \<and> ck' \<in> set ((s, key) # ks))) (data self)"
      using False by (auto intro!: filter_cong)
    then show ?thesis using False ck Cons.IH [of self] by simp
  qed
qed

text \<open>
  C5. A clear event from a source removes from the view exactly the entries whose
  composite key has the identity of that source as first component: the entries that
  remain are those of every other source, unchanged and in their order. If the source
  is not accepted, the view is unchanged.
\<close>

theorem source_cleared_exact:
  "source_cleared source self =
     (if accept_source self source
      then self\<lparr>data := filter (\<lambda>(ck, item). fst ck \<noteq> sync_id source) (data self)\<rparr>
      else self)"
proof -
  have "filter (\<lambda>(ck, item). \<not> (fst ck = sync_id source \<and> ck \<in> set (map fst (data self)))) (data self)
      = filter (\<lambda>(ck, item). fst ck \<noteq> sync_id source) (data self)"
    by (auto intro!: filter_cong intro: rev_image_eqI)
  then show ?thesis
    by (simp add: source_cleared_def Model_copy_keys_def clear_fold)
qed

theorem source_cleared_exact_witness:
  "source_cleared \<lparr>sync_id = Room_key ''@a:x'', data = []\<rparr>
      \<lparr>sync_id = Account_key,
       data = [((Room_key ''@a:x'', ''!r1''), \<lparr>room_id = ''!r1''\<rparr>),
               ((Room_key ''@b:x'', ''!r1''), \<lparr>room_id = ''!r1''\<rparr>),
               ((Room_key ''@a:x'', ''!r2''), \<lparr>room_id = ''!r2''\<rparr>)],
       accept_source = accept_source_default\<rparr>
     = \<lparr>sync_id = Account_key,
        data = [((Room_key ''@b:x'', ''!r1''), \<lparr>room_id = ''!r1''\<rparr>)],
        accept_source = accept_source_default\<rparr>
   \<and> source_cleared \<lparr>sync_id = Room_key ''@a:x'', data = []\<rparr>
      \<lparr>sync_id = Account_key,
       data = [((Room_key ''@a:x'', ''!r1''), \<lparr>room_id = ''!r1''\<rparr>)],
       accept_source = (\<lambda>source. sync_id source = Account_key)\<rparr>
     = \<lparr>sync_id = Account_key,
        data = [((Room_key ''@a:x'', ''!r1''), \<lparr>room_id = ''!r1''\<rparr>)],
        accept_source = (\<lambda>source. sync_id source = Account_key)\<rparr>"
  using source_cleared_exact
    [of "\<lparr>sync_id = Room_key ''@a:x'', data = []\<rparr>"
        "\<lparr>sync_id = Account_key,
       data = [((Room_key ''@a:x'', ''!r1''), \<lparr>room_id = ''!r1''\<rparr>),
               ((Room_key ''@b:x'', ''!r1''), \<lparr>room_id = ''!r1''\<rparr>),
               ((Room_key ''@a:x'', ''!r2''), \<lparr>room_id = ''!r2''\<rparr>)],
       accept_source = accept_source_default\<rparr>"]
    source_cleared_exact
    [of "\<lparr>sync_id = Room_key ''@a:x'', data = []\<rparr>"
        "\<lparr>sync_id = Account_key,
       data = [((Room_key ''@a:x'', ''!r1''), \<lparr>room_id = ''!r1''\<rparr>)],
       accept_source = (\<lambda>source. sync_id source = Account_key)\<rparr>"]
  by (simp add: accept_source_default_def)

subsection \<open>Construction\<close>

lemma mirror_fold_fields:
  "sync_id (fold (\<lambda>(key, item) self. source_item_set model key item self) kvs
              (self :: ('sid, 'k, 'v) ModelProxy)) = sync_id self
   \<and> accept_source (fold (\<lambda>(key, item) self. source_item_set model key item self) kvs self)
       = accept_source self"
  by (induction kvs arbitrary: self) (auto simp: source_item_set_def Model_setitem_def)

lemma mirror_fold_lookup:
  "accept_source self model \<Longrightarrow>
   map_of (data (fold (\<lambda>(key, item) self. source_item_set model key item self) kvs
                   (self :: ('sid, 'k, 'v) ModelProxy))) (s, k)
     = (if s = sync_id model
        then (case map_of (rev kvs) k of Some v \<Rightarrow> Some v | None \<Rightarrow> map_of (data self) (s, k))
        else map_of (data self) (s, k))"
proof (induction kvs arbitrary: self)
  case Nil
  then show ?case by simp
next
  case (Cons kv kvs)
  obtain key item where kv: "kv = (key, item)" by (cases kv)
  let ?self' = "source_item_set model key item self"
  have acc: "accept_source ?self' model"
    using Cons.prems by (simp add: source_item_set_def Model_setitem_def)
  have d: "map_of (data ?self') = (map_of (data self))((sync_id model, key) \<mapsto> item)"
    using Cons.prems by (simp add: source_item_set_def Model_setitem_def update_conv')
  show ?case using Cons.IH [OF acc] kv d
    by (auto simp: map_add_def split: option.splits)
qed

lemma mirror_model_lookup:
  assumes "accept_source self model" "distinct (map fst (data model))"
  shows "map_of (data (mirror_model model self)) (s, k)
     = (if s = sync_id model
        then (case map_of (data model) k of Some v \<Rightarrow> Some v | None \<Rightarrow> map_of (data self) (s, k))
        else map_of (data self) (s, k))"
  using assms by (simp add: mirror_model_def Model_items_def mirror_fold_lookup map_of_rev_distinct)

lemma mirror_model_fields:
  "sync_id (mirror_model model self) = sync_id self
   \<and> accept_source (mirror_model model self) = accept_source self"
  by (simp add: mirror_model_def mirror_fold_fields)

lemma init_fold_lookup:
  "registry_ok instances \<Longrightarrow>
   map_of (data (fold (\<lambda>(sync_id', model) self.
             if sync_id' \<noteq> sync_id self \<and> accept_source self model
             then mirror_model model self else self) instances (self :: ('sid, 'k, 'v) ModelProxy))) (s, k)
     = (case map_of instances s of
          None \<Rightarrow> map_of (data self) (s, k)
        | Some model \<Rightarrow>
            if s \<noteq> sync_id self \<and> accept_source self model
            then (case map_of (data model) k of Some v \<Rightarrow> Some v | None \<Rightarrow> map_of (data self) (s, k))
            else map_of (data self) (s, k))"
proof (induction instances arbitrary: self)
  case Nil
  then show ?case by simp
next
  case (Cons e instances)
  obtain sid' model where e: "e = (sid', model)" by (cases e)
  from Cons.prems e have ok: "registry_ok instances" and own: "sync_id model = sid'"
    and fresh: "sid' \<notin> fst ` set instances" and dist: "distinct (map fst (data model))"
    by (auto simp: registry_ok_def)
  show ?case
  proof (cases "sid' \<noteq> sync_id self \<and> accept_source self model")
    case True
    let ?self' = "mirror_model model self"
    have f: "sync_id ?self' = sync_id self" "accept_source ?self' = accept_source self"
      by (simp_all add: mirror_model_fields)
    have l: "map_of (data ?self') (s, k)
     = (if s = sid'
        then (case map_of (data model) k of Some v \<Rightarrow> Some v | None \<Rightarrow> map_of (data self) (s, k))
        else map_of (data self) (s, k))"
      using mirror_model_lookup [of self model s k] True dist own by simp
    have step: "fold (\<lambda>(sync_id', model) self.
             if sync_id' \<noteq> sync_id self \<and> accept_source self model
             then mirror_model model self else self) (e # instances) self
       = fold (\<lambda>(sync_id', model) self.
             if sync_id' \<noteq> sync_id self \<and> accept_source self model
             then mirror_model model self else self) instances ?self'"
      using True e by simp
    show ?thesis
    proof (cases "s = sid'")
      case True
      with fresh have "map_of instances s = None" by (simp add: map_of_eq_None_iff)
      then show ?thesis
        unfolding step Cons.IH [OF ok, of ?self'] f l
        using True \<open>sid' \<noteq> sync_id self \<and> accept_source self model\<close> e
        by simp
    next
      case False
      then show ?thesis
        unfolding step Cons.IH [OF ok, of ?self'] f l using e
        by simp
    qed
  next
    case False
    have step: "fold (\<lambda>(sync_id', model) self.
             if sync_id' \<noteq> sync_id self \<and> accept_source self model
             then mirror_model model self else self) (e # instances) self
       = fold (\<lambda>(sync_id', model) self.
             if sync_id' \<noteq> sync_id self \<and> accept_source self model
             then mirror_model model self else self) instances self"
      using False e by auto
    show ?thesis
    proof (cases "s = sid'")
      case True
      with fresh have "map_of instances s = None" by (simp add: map_of_eq_None_iff)
      then show ?thesis
        unfolding step Cons.IH [OF ok, of self] using True False e
        by auto
    next
      case False
      then show ?thesis
        unfolding step Cons.IH [OF ok, of self] using e
        by simp
    qed
  qed
qed

text \<open>
  C4. After construction the view holds, under the composite key \<open>(s, k)\<close>, exactly the
  item that the collection registered under \<open>s\<close> holds under \<open>k\<close>, for every
  collection \<open>s\<close> other than the view itself that \<open>accept_source\<close> accepts; it holds
  nothing under a composite key of a collection that is not accepted, of the view itself,
  or of no registered collection.
\<close>

theorem ModelProxy_init_mirrors:
  "registry_ok instances \<Longrightarrow>
   map_of (data (ModelProxy_init sid accept instances)) (s, k) =
     (case map_of instances s of
        None \<Rightarrow> None
      | Some model \<Rightarrow> if s \<noteq> sid \<and> accept model then map_of (data model) k else None)"
  by (simp add: ModelProxy_init_def init_fold_lookup split: option.splits)

theorem ModelProxy_init_mirrors_witness:
  "registry_ok
     [(Room_key ''@a:x'', \<lparr>sync_id = Room_key ''@a:x'',
                           data = [(''!r1'', \<lparr>room_id = ''!r1''\<rparr>), (''!r2'', \<lparr>room_id = ''!r2''\<rparr>)]\<rparr>),
      (Room_key ''@b:x'', \<lparr>sync_id = Room_key ''@b:x'', data = [(''!r3'', \<lparr>room_id = ''!r3''\<rparr>)]\<rparr>)]
   \<and> map_of (data (ModelProxy_init Account_key (\<lambda>source. sync_id source = Room_key ''@a:x'')
        [(Room_key ''@a:x'', \<lparr>sync_id = Room_key ''@a:x'',
                              data = [(''!r1'', \<lparr>room_id = ''!r1''\<rparr>), (''!r2'', \<lparr>room_id = ''!r2''\<rparr>)]\<rparr>),
         (Room_key ''@b:x'', \<lparr>sync_id = Room_key ''@b:x'', data = [(''!r3'', \<lparr>room_id = ''!r3''\<rparr>)]\<rparr>)]))
        (Room_key ''@a:x'', ''!r2'') = Some \<lparr>room_id = ''!r2''\<rparr>"
  using ModelProxy_init_mirrors
    [of "[(Room_key ''@a:x'', \<lparr>sync_id = Room_key ''@a:x'',
                              data = [(''!r1'', \<lparr>room_id = ''!r1''\<rparr>), (''!r2'', \<lparr>room_id = ''!r2''\<rparr>)]\<rparr>),
         (Room_key ''@b:x'', \<lparr>sync_id = Room_key ''@b:x'', data = [(''!r3'', \<lparr>room_id = ''!r3''\<rparr>)]\<rparr>)]"
        Account_key "\<lambda>source. sync_id source = Room_key ''@a:x''" "Room_key ''@a:x''" "''!r2''"]
  by (simp add: registry_ok_def)

section \<open>Properties of the backend\<close>

subsection \<open>Clients management\<close>

lemma lockstep_run_operation: "lockstep self \<Longrightarrow> lockstep (run_operation op self)"
  by (cases op)
     (auto simp: lockstep_def login_client_def resume_client_def logout_client_def
        Model_setitem_def Model_delitem_def dom_update dom_delete Let_def map_of_eq_None_iff
        split: sum.splits error.splits option.splits)

lemma lockstep_fold: "lockstep self \<Longrightarrow> lockstep (fold run_operation ops self)"
  by (induction ops arbitrary: self) (simp_all add: lockstep_run_operation)

text \<open>
  C6. Starting from an empty backend, after each operation of any sequence of
  \<open>login_client\<close>, \<open>resume_client\<close> and \<open>logout_client\<close> calls (that is, after the
  first \<open>n\<close> operations, for every \<open>n\<close>), whatever the awaited calls do, a user id has
  an entry in \<open>clients\<close> if and only if it has one in \<open>models[Account]\<close>.
\<close>

theorem clients_accounts_lockstep:
  "lockstep (run_operations (take n ops) Backend_init)"
  unfolding run_operations_def
  by (rule lockstep_fold) (simp add: lockstep_def Backend_init_def)

text \<open>
  C10. When the login fails with a \<open>MatrixError\<close>, \<open>login_client\<close> closes the client
  it created, raises the same error and leaves the backend as it was. When the login
  succeeds, it returns the client's user id, and \<open>clients\<close> and \<open>models[Account]\<close>
  are the ones before the call with the client, and an account item, stored under that
  user id.
\<close>

theorem login_client_outcomes:
  "login_client u p d h (Inl (MatrixError m)) self =
     (Inl (MatrixError m), self, [ClientClose \<lparr>user = u, homeserver = h, device_id = d\<rparr>])
   \<and> (case login_client u p d h (Inr uid) self of
        (result, self', trace) \<Rightarrow>
           result = Inr uid \<and> trace = []
         \<and> map_of (clients self')
             = (map_of (clients self))(uid \<mapsto> \<lparr>user = u, homeserver = h, device_id = d\<rparr>)
         \<and> map_of (data (models_Account self'))
             = (map_of (data (models_Account self)))(uid \<mapsto> \<lparr>user_id = uid\<rparr>))"
  by (simp add: login_client_def Model_setitem_def update_conv' Let_def)

subsection \<open>Waiting for a client\<close>

lemma get_client_loop_resolves:
  "f \<le> m \<Longrightarrow> (\<forall>i. f \<le> i \<and> i < m \<longrightarrow> map_of (clients_at i) uid = None) \<Longrightarrow>
   map_of (clients_at m) uid = Some c \<Longrightarrow>
   get_client_loop clients_at uid f trace =
     Some (c, trace @ concat (map (\<lambda>failures.
                    (if failures \<noteq> 0 \<and> failures mod 100 = 0
                     then [WarnClientNotFound uid (failures div 10)] else [])
                    @ [Sleep 100]) [f..<m]))"
proof (induction "m - f" arbitrary: f trace)
  case 0
  then have "f = m" by simp
  with 0 show ?case by (subst get_client_loop.simps) simp
next
  case (Suc d)
  then have lt: "f < m" by simp
  with Suc.prems have here: "map_of (clients_at f) uid = None" by simp
  have d: "d = m - Suc f" using Suc.hyps(2) by simp
  have le: "Suc f \<le> m" using lt by simp
  have later: "\<forall>i. Suc f \<le> i \<and> i < m \<longrightarrow> map_of (clients_at i) uid = None"
    using Suc.prems(2) by simp
  note IH = Suc.hyps(1) [OF d le later Suc.prems(3)]
  show ?case
    by (subst get_client_loop.simps) (simp add: here IH upt_conv_Cons [OF lt])
qed

lemma get_client_loop_returns:
  assumes "get_client_loop clients_at uid f trace = Some y"
  shows "\<exists>n\<ge>f. map_of (clients_at n) uid \<noteq> None"
proof (rule get_client_loop.raw_induct
         [where P = "\<lambda>ca u k t r. \<exists>n\<ge>k. map_of (ca n) u \<noteq> None", OF _ assms])
  fix loop :: "(nat \<Rightarrow> (string \<times> MatrixClient) list) \<Rightarrow> string \<Rightarrow> nat \<Rightarrow> effect list
     \<Rightarrow> (MatrixClient \<times> effect list) option"
  fix ca u k t r
  assume IH: "\<And>ca u k t r. loop ca u k t = Some r \<Longrightarrow> \<exists>n\<ge>k. map_of (ca n) u \<noteq> None"
  assume body: "(case map_of (ca k) u of
      None \<Rightarrow> loop ca u (k + 1)
         (t @ (if k \<noteq> 0 \<and> k mod 100 = 0 then [WarnClientNotFound u (k div 10)] else [])
            @ [Sleep 100])
      | Some client \<Rightarrow> Some (client, t)) = Some r"
  show "\<exists>n\<ge>k. map_of (ca n) u \<noteq> None"
  proof (cases "map_of (ca k) u")
    case None
    with body have "loop ca u (k + 1)
         (t @ (if k \<noteq> 0 \<and> k mod 100 = 0 then [WarnClientNotFound u (k div 10)] else [])
            @ [Sleep 100]) = Some r"
      by simp
    from IH [OF this] obtain n where "n \<ge> k + 1" "map_of (ca n) u \<noteq> None" by blast
    then show ?thesis by (intro exI [of _ n]) simp
  next
    case (Some c)
    then show ?thesis by (intro exI [of _ k]) simp
  qed
qed

text \<open>
  C7. \<open>get_client\<close> returns the client registered under the user id in \<open>clients\<close>.
  If the id is registered when the call is made, it returns at once: no sleep, no
  warning. If the id is first registered at the check after \<open>n\<close> sleeps, however large
  \<open>n\<close> is, it returns the client found at that check, having slept \<open>n\<close> times for
  100 ms each and warned at every hundredth failure. If the id is never registered, the
  call never returns: it does not give up.
\<close>

theorem get_client_waits:
  "(map_of (clients_at 0) uid = Some c \<longrightarrow> get_client clients_at uid = Some (c, []))
   \<and> ((\<forall>i<n. map_of (clients_at i) uid = None) \<and> map_of (clients_at n) uid = Some c
        \<longrightarrow> get_client clients_at uid = Some (c, polls (WarnClientNotFound uid) 100 n))
   \<and> ((\<forall>i. map_of (clients_at i) uid = None) \<longrightarrow> get_client clients_at uid = None)"
proof (intro conjI impI)
  assume "map_of (clients_at 0) uid = Some c"
  then show "get_client clients_at uid = Some (c, [])"
    using get_client_loop_resolves [of 0 0 clients_at uid c "[]"] by (simp add: get_client_def)
next
  assume "(\<forall>i<n. map_of (clients_at i) uid = None) \<and> map_of (clients_at n) uid = Some c"
  then show "get_client clients_at uid = Some (c, polls (WarnClientNotFound uid) 100 n)"
    using get_client_loop_resolves [of 0 n clients_at uid c "[]"]
    by (simp add: get_client_def polls_def)
next
  assume never: "\<forall>i. map_of (clients_at i) uid = None"
  show "get_client clients_at uid = None"
  proof (cases "get_client clients_at uid")
    case (Some y)
    then show ?thesis using get_client_loop_returns [of clients_at uid 0 "[]" y] never
      by (simp add: get_client_def)
  qed simp
qed

theorem get_client_waits_witness:
  "map_of [(''@a:x'', \<lparr>user = ''@a:x'', homeserver = ''h'', device_id = None\<rparr>)] ''@a:x''
     = Some \<lparr>user = ''@a:x'', homeserver = ''h'', device_id = None\<rparr>
   \<and> get_client (\<lambda>n. [(''@a:x'', \<lparr>user = ''@a:x'', homeserver = ''h'', device_id = None\<rparr>)]) ''@a:x''
     = Some (\<lparr>user = ''@a:x'', homeserver = ''h'', device_id = None\<rparr>, [])
   \<and> map_of (if (2::nat) < 2 then []
               else [(''@a:x'', \<lparr>user = ''@a:x'', homeserver = ''h'', device_id = None\<rparr>)])
        ''@a:x'' = Some \<lparr>user = ''@a:x'', homeserver = ''h'', device_id = None\<rparr>
   \<and> get_client (\<lambda>n. if n < 2 then []
                     else [(''@a:x'', \<lparr>user = ''@a:x'', homeserver = ''h'', device_id = None\<rparr>)])
        ''@a:x''
     = Some (\<lparr>user = ''@a:x'', homeserver = ''h'', device_id = None\<rparr>, [Sleep 100, Sleep 100])
   \<and> map_of ([] :: (string \<times> MatrixClient) list) ''@a:x'' = None
   \<and> get_client (\<lambda>n. []) ''@a:x'' = None"
  using
    get_client_waits [of "\<lambda>n. [(''@a:x'', \<lparr>user = ''@a:x'', homeserver = ''h'', device_id = None\<rparr>)]"
       "''@a:x''" "\<lparr>user = ''@a:x'', homeserver = ''h'', device_id = None\<rparr>" 0]
    get_client_waits [of "\<lambda>n. if n < 2 then []
                     else [(''@a:x'', \<lparr>user = ''@a:x'', homeserver = ''h'', device_id = None\<rparr>)]"
       "''@a:x''" "\<lparr>user = ''@a:x'', homeserver = ''h'', device_id = None\<rparr>" 2]
    get_client_waits [of "\<lambda>n. []" "''@a:x''" "\<lparr>user = ''@a:x'', homeserver = ''h'', device_id = None\<rparr>" 0]
  by (simp add: polls_def upt_rec)

subsection \<open>Waiting for a syncing client\<close>

lemma first_syncing_None:
  "first_syncing cs = None \<longleftrightarrow> (\<forall>x\<in>set cs. \<not> snd (snd x))"
  by (induction cs) (auto simp: first_syncing_def)

lemma first_syncing_first:
  "\<forall>x\<in>set pre. \<not> snd (snd x) \<Longrightarrow>
   first_syncing (pre @ (uid, client, True) # post) = Some client"
  by (induction pre) (auto simp: first_syncing_def)

lemma first_syncing_Some:
  "first_syncing cs = Some client \<Longrightarrow> \<exists>uid. (uid, client, True) \<in> set cs"
  by (induction cs) (auto simp: first_syncing_def split: if_splits)

lemma get_any_client_loop_resolves:
  "f \<le> m \<Longrightarrow> (\<forall>i. f \<le> i \<and> i < m \<longrightarrow> first_syncing (clients_at i) = None) \<Longrightarrow>
   first_syncing (clients_at m) = Some c \<Longrightarrow>
   get_any_client_loop clients_at f trace =
     Some (c, trace @ concat (map (\<lambda>failures.
                    (if failures \<noteq> 0 \<and> failures mod 300 = 0
                     then [WarnNoHealthyClient (failures div 10)] else [])
                    @ [Sleep 100]) [f..<m]))"
proof (induction "m - f" arbitrary: f trace)
  case 0
  then have "f = m" by simp
  with 0 show ?case by (subst get_any_client_loop.simps) simp
next
  case (Suc d)
  then have lt: "f < m" by simp
  with Suc.prems have here: "first_syncing (clients_at f) = None" by simp
  have d: "d = m - Suc f" using Suc.hyps(2) by simp
  have le: "Suc f \<le> m" using lt by simp
  have later: "\<forall>i. Suc f \<le> i \<and> i < m \<longrightarrow> first_syncing (clients_at i) = None"
    using Suc.prems(2) by simp
  note IH = Suc.hyps(1) [OF d le later Suc.prems(3)]
  show ?case
    by (subst get_any_client_loop.simps) (simp add: here IH upt_conv_Cons [OF lt])
qed

lemma get_any_client_loop_returns:
  assumes "get_any_client_loop clients_at f trace = Some y"
  shows "\<exists>n\<ge>f. first_syncing (clients_at n) = Some (fst y)"
proof (rule get_any_client_loop.raw_induct
         [where P = "\<lambda>ca k t r. \<exists>n\<ge>k. first_syncing (ca n) = Some (fst r)", OF _ assms])
  fix loop :: "(nat \<Rightarrow> (string \<times> MatrixClient \<times> bool) list) \<Rightarrow> nat \<Rightarrow> effect list
     \<Rightarrow> (MatrixClient \<times> effect list) option"
  fix ca k t r
  assume IH: "\<And>ca k t r. loop ca k t = Some r \<Longrightarrow> \<exists>n\<ge>k. first_syncing (ca n) = Some (fst r)"
  assume body: "(case first_syncing (ca k) of
      None \<Rightarrow> loop ca (k + 1)
         (t @ (if k \<noteq> 0 \<and> k mod 300 = 0 then [WarnNoHealthyClient (k div 10)] else [])
            @ [Sleep 100])
      | Some client \<Rightarrow> Some (client, t)) = Some r"
  show "\<exists>n\<ge>k. first_syncing (ca n) = Some (fst r)"
  proof (cases "first_syncing (ca k)")
    case None
    with body have "loop ca (k + 1)
         (t @ (if k \<noteq> 0 \<and> k mod 300 = 0 then [WarnNoHealthyClient (k div 10)] else [])
            @ [Sleep 100]) = Some r"
      by simp
    from IH [OF this] obtain n where "n \<ge> k + 1" "first_syncing (ca n) = Some (fst r)" by blast
    then show ?thesis by (intro exI [of _ n]) simp
  next
    case (Some c)
    with body have "r = (c, t)" by simp
    with Some show ?thesis by (intro exI [of _ k]) simp
  qed
qed

text \<open>
  C8. At the first check at which some registered client is syncing (no client is
  syncing at the checks before it), \<open>get_any_client\<close> returns the first client, in the
  order of the \<open>clients\<close> dict, whose \<open>syncing\<close> attribute is true: every client
  before it in the dict is not syncing. Whatever it returns is a client that some check
  found registered with \<open>syncing\<close> true, so it never returns a client that is not
  syncing.
\<close>

theorem get_any_client_first_syncing:
  "((\<forall>i<n. \<forall>x\<in>set (clients_at i). \<not> snd (snd x))
      \<and> clients_at n = pre @ (uid, client, True) # post \<and> (\<forall>x\<in>set pre. \<not> snd (snd x))
      \<longrightarrow> get_any_client clients_at = Some (client, polls WarnNoHealthyClient 300 n))
   \<and> (get_any_client clients_at = Some (client', trace)
      \<longrightarrow> (\<exists>k uid'. (uid', client', True) \<in> set (clients_at k)))"
proof (intro conjI impI)
  assume a: "(\<forall>i<n. \<forall>x\<in>set (clients_at i). \<not> snd (snd x))
      \<and> clients_at n = pre @ (uid, client, True) # post \<and> (\<forall>x\<in>set pre. \<not> snd (snd x))"
  then have before: "\<forall>i. 0 \<le> i \<and> i < n \<longrightarrow> first_syncing (clients_at i) = None"
    by (simp add: first_syncing_None)
  from a have found: "first_syncing (clients_at n) = Some client"
    by (simp add: first_syncing_first)
  show "get_any_client clients_at = Some (client, polls WarnNoHealthyClient 300 n)"
    using get_any_client_loop_resolves [OF _ before found, of "[]"]
    by (simp add: get_any_client_def polls_def)
next
  assume "get_any_client clients_at = Some (client', trace)"
  then obtain k where "first_syncing (clients_at k) = Some client'"
    using get_any_client_loop_returns [of clients_at 0 "[]" "(client', trace)"]
    by (auto simp: get_any_client_def)
  then show "\<exists>k uid'. (uid', client', True) \<in> set (clients_at k)"
    using first_syncing_Some by blast
qed

theorem get_any_client_first_syncing_witness:
  "[(''@a:x'', \<lparr>user = ''@a:x'', homeserver = ''h'', device_id = None\<rparr>, False),
    (''@b:x'', \<lparr>user = ''@b:x'', homeserver = ''h'', device_id = None\<rparr>, True),
    (''@c:x'', \<lparr>user = ''@c:x'', homeserver = ''h'', device_id = None\<rparr>, True)]
     = [(''@a:x'', \<lparr>user = ''@a:x'', homeserver = ''h'', device_id = None\<rparr>, False)]
       @ (''@b:x'', \<lparr>user = ''@b:x'', homeserver = ''h'', device_id = None\<rparr>, True)
       # [(''@c:x'', \<lparr>user = ''@c:x'', homeserver = ''h'', device_id = None\<rparr>, True)]
   \<and> get_any_client (\<lambda>k.
        if k < 1 then [(''@a:x'', \<lparr>user = ''@a:x'', homeserver = ''h'', device_id = None\<rparr>, False)]
        else [(''@a:x'', \<lparr>user = ''@a:x'', homeserver = ''h'', device_id = None\<rparr>, False),
              (''@b:x'', \<lparr>user = ''@b:x'', homeserver = ''h'', device_id = None\<rparr>, True),
              (''@c:x'', \<lparr>user = ''@c:x'', homeserver = ''h'', device_id = None\<rparr>, True)])
     = Some (\<lparr>user = ''@b:x'', homeserver = ''h'', device_id = None\<rparr>, [Sleep 100])
   \<and> (\<exists>k uid'. (uid', \<lparr>user = ''@b:x'', homeserver = ''h'', device_id = None\<rparr>, True)
         \<in> set (if k < (1::nat)
                then [(''@a:x'', \<lparr>user = ''@a:x'', homeserver = ''h'', device_id = None\<rparr>, False)]
                else [(''@a:x'', \<lparr>user = ''@a:x'', homeserver = ''h'', device_id = None\<rparr>, False),
                      (''@b:x'', \<lparr>user = ''@b:x'', homeserver = ''h'', device_id = None\<rparr>, True),
                      (''@c:x'', \<lparr>user = ''@c:x'', homeserver = ''h'', device_id = None\<rparr>, True)]))"
proof -
  let ?a = "\<lparr>user = ''@a:x'', homeserver = ''h'', device_id = None\<rparr>"
  let ?b = "\<lparr>user = ''@b:x'', homeserver = ''h'', device_id = None\<rparr>"
  let ?c = "\<lparr>user = ''@c:x'', homeserver = ''h'', device_id = None\<rparr>"
  let ?ca = "\<lambda>k::nat. if k < 1 then [(''@a:x'', ?a, False)]
        else [(''@a:x'', ?a, False), (''@b:x'', ?b, True), (''@c:x'', ?c, True)]"
  note t = get_any_client_first_syncing
     [of 1 ?ca "[(''@a:x'', ?a, False)]" "''@b:x''" ?b "[(''@c:x'', ?c, True)]" ?b "[Sleep 100]"]
  have r: "get_any_client ?ca = Some (?b, [Sleep 100])"
    using t by (simp add: polls_def)
  from t r have "\<exists>k uid'. (uid', ?b, True) \<in> set (?ca k)"
    by blast
  with r show ?thesis by simp
qed

subsection \<open>Resuming the saved accounts\<close>

lemma resume_outcome:
  "fst (resume client_resume uid info self)
     = (resume_instant client_resume uid info,
        case resume_failure client_resume uid info of Some e \<Rightarrow> Inl e | None \<Rightarrow> Inr uid)"
  by (auto simp: resume_def resume_failure_def resume_instant_def info_complete_def
                 resume_client_def Let_def
           split: option.splits sum.splits prod.splits)

lemma resume_registers:
  "fst ` set (clients (snd (resume client_resume uid info self)))
     = fst ` set (clients self) \<union> (if info_complete info then {uid} else {})"
  "fst ` set (data (models_Account (snd (resume client_resume uid info self))))
     = fst ` set (data (models_Account self)) \<union> (if info_complete info then {uid} else {})"
  by (auto simp: resume_def info_complete_def resume_client_def Let_def Model_setitem_def
                 dom_update
           split: option.splits sum.splits prod.splits)

lemma resume_all_outcomes:
  "fst (resume_all client_resume saved self)
     = map (\<lambda>x. (resume_instant client_resume (fst x) (snd x),
                  case resume_failure client_resume (fst x) (snd x) of
                    Some e \<Rightarrow> Inl e | None \<Rightarrow> Inr (fst x))) saved"
proof (induction saved arbitrary: self)
  case Nil
  then show ?case by simp
next
  case (Cons a saved)
  obtain uid info where a: "a = (uid, info)" by (cases a)
  obtain r self' where r: "resume client_resume uid info self = (r, self')"
    by (cases "resume client_resume uid info self")
  obtain rs self'' where rs: "resume_all client_resume saved self' = (rs, self'')"
    by (cases "resume_all client_resume saved self'")
  have "r = (resume_instant client_resume uid info,
        case resume_failure client_resume uid info of Some e \<Rightarrow> Inl e | None \<Rightarrow> Inr uid)"
    using resume_outcome [of client_resume uid info self] r by simp
  moreover have "rs = map (\<lambda>x. (resume_instant client_resume (fst x) (snd x),
                  case resume_failure client_resume (fst x) (snd x) of
                    Some e \<Rightarrow> Inl e | None \<Rightarrow> Inr (fst x))) saved"
    using Cons.IH [of self'] rs by simp
  ultimately show ?case using a r rs by (simp split: option.splits)
qed

lemma resume_all_registers:
  "fst ` set (clients (snd (resume_all client_resume saved self)))
     = fst ` set (clients self) \<union> fst ` {x \<in> set saved. info_complete (snd x)}
   \<and> fst ` set (data (models_Account (snd (resume_all client_resume saved self))))
     = fst ` set (data (models_Account self)) \<union> fst ` {x \<in> set saved. info_complete (snd x)}"
proof (induction saved arbitrary: self)
  case Nil
  then show ?case by simp
next
  case (Cons a saved)
  obtain uid info where a: "a = (uid, info)" by (cases a)
  obtain r self' where r: "resume client_resume uid info self = (r, self')"
    by (cases "resume client_resume uid info self")
  obtain rs self'' where rs: "resume_all client_resume saved self' = (rs, self'')"
    by (cases "resume_all client_resume saved self'")
  have one: "fst ` set (clients self')
               = fst ` set (clients self) \<union> (if info_complete info then {uid} else {})"
    "fst ` set (data (models_Account self'))
               = fst ` set (data (models_Account self)) \<union> (if info_complete info then {uid} else {})"
    using resume_registers [of client_resume uid info self] r by simp_all
  have rest: "fst ` set (clients self'')
               = fst ` set (clients self') \<union> fst ` {x \<in> set saved. info_complete (snd x)}"
    "fst ` set (data (models_Account self''))
               = fst ` set (data (models_Account self')) \<union> fst ` {x \<in> set saved. info_complete (snd x)}"
    using Cons.IH [of self'] rs by simp_all
  have split: "fst ` {x \<in> set (a # saved). info_complete (snd x)}
                 = (if info_complete info then {uid} else {})
                   \<union> fst ` {x \<in> set saved. info_complete (snd x)}"
    using a by (auto intro: rev_image_eqI)
  show ?case
    using a r rs unfolding split by (simp add: one rest Un_assoc)
qed

lemma gather_all_succeed:
  assumes "\<forall>x\<in>set aws. \<not> isl (snd x)"
  shows "gather aws = Inr (map projr (map snd aws))"
proof -
  from assms have "filter (\<lambda>(t, r). isl r) aws = []"
    by (auto simp: filter_empty_conv)
  then show ?thesis
    by (simp add: gather_def case_prod_beta comp_def)
qed

lemma arg_min_list_first:
  "\<forall>y\<in>set pre. f x < f y \<Longrightarrow> \<forall>y\<in>set post. f x \<le> f y \<Longrightarrow>
   arg_min_list f (pre @ x # post) = (x :: 'a)"
  for f :: "'a \<Rightarrow> nat"
proof (induction pre)
  case Nil
  show ?case
  proof (cases post)
    case Nil
    then show ?thesis by simp
  next
    case (Cons y ys)
    have "arg_min_list f (y # ys) \<in> set (y # ys)" by (rule arg_min_list_in) simp
    then have "f x \<le> f (arg_min_list f (y # ys))" using Nil.prems(2) Cons by blast
    then show ?thesis using Cons by (simp add: Let_def)
  qed
next
  case (Cons p pre)
  then have IH: "arg_min_list f (pre @ x # post) = x" by simp
  obtain z zs where z: "pre @ x # post = z # zs" by (cases "pre @ x # post") auto
  have "arg_min_list f (p # z # zs) = (if f p \<le> f (arg_min_list f (z # zs)) then p
                                        else arg_min_list f (z # zs))"
    by (simp add: Let_def)
  then show ?case using IH z Cons.prems(1) by auto
qed

lemma gather_first_failure:
  assumes "\<forall>y\<in>set pre. isl (snd y) \<longrightarrow> t < fst y"
    and "\<forall>y\<in>set post. isl (snd y) \<longrightarrow> t \<le> fst y"
  shows "gather (pre @ (t, Inl e) # post) = Inl e"
proof -
  let ?P = "\<lambda>(t, r). isl r"
  have f: "filter ?P (pre @ (t, Inl e) # post) = filter ?P pre @ (t, Inl e) # filter ?P post"
    by simp
  have m: "arg_min_list fst (filter ?P pre @ (t, Inl e) # filter ?P post) = (t, Inl e)"
    using assms by (intro arg_min_list_first) (auto simp: case_prod_beta)
  obtain z zs where z: "filter ?P pre @ (t, Inl e) # filter ?P post = z # zs"
    by (cases "filter ?P pre @ (t, Inl e) # filter ?P post") auto
  show ?thesis
    unfolding gather_def f using m unfolding z by simp
qed

lemma first_minimum_exists:
  fixes f :: "'a \<Rightarrow> nat"
  assumes "\<exists>x\<in>set xs. P x"
  shows "\<exists>pre x post. xs = pre @ x # post \<and> P x
           \<and> (\<forall>y\<in>set pre. P y \<longrightarrow> f x < f y) \<and> (\<forall>y\<in>set post. P y \<longrightarrow> f x \<le> f y)"
  using assms
proof (induction xs)
  case Nil
  then show ?case by simp
next
  case (Cons a xs)
  show ?case
  proof (cases "\<exists>x\<in>set xs. P x")
    case False
    with Cons.prems have "P a" by auto
    with False have "a # xs = [] @ a # xs \<and> P a
           \<and> (\<forall>y\<in>set []. P y \<longrightarrow> f a < f y) \<and> (\<forall>y\<in>set xs. P y \<longrightarrow> f a \<le> f y)"
      by auto
    then show ?thesis by blast
  next
    case True
    from Cons.IH [OF this] obtain pre x post where
      d: "xs = pre @ x # post" "P x" "\<forall>y\<in>set pre. P y \<longrightarrow> f x < f y"
         "\<forall>y\<in>set post. P y \<longrightarrow> f x \<le> f y"
      by blast
    show ?thesis
    proof (cases "P a \<and> f a \<le> f x")
      case True
      have "\<forall>y\<in>set xs. P y \<longrightarrow> f a \<le> f y"
      proof (intro ballI impI)
        fix y assume "y \<in> set xs" "P y"
        then consider "y \<in> set pre" | "y = x" | "y \<in> set post" using d(1) by auto
        then show "f a \<le> f y"
        proof cases
          case 1
          then have "f x < f y" using d(3) \<open>P y\<close> by blast
          with True show ?thesis by simp
        next
          case 2
          with True show ?thesis by simp
        next
          case 3
          then have "f x \<le> f y" using d(4) \<open>P y\<close> by blast
          with True show ?thesis by simp
        qed
      qed
      with True have "a # xs = [] @ a # xs \<and> P a
           \<and> (\<forall>y\<in>set []. P y \<longrightarrow> f a < f y) \<and> (\<forall>y\<in>set xs. P y \<longrightarrow> f a \<le> f y)"
        by simp
      then show ?thesis by blast
    next
      case False
      then have "P a \<longrightarrow> f x < f a" by auto
      with d have "a # xs = (a # pre) @ x # post \<and> P x
           \<and> (\<forall>y\<in>set (a # pre). P y \<longrightarrow> f x < f y) \<and> (\<forall>y\<in>set post. P y \<longrightarrow> f x \<le> f y)"
        by simp
      then show ?thesis by blast
    qed
  qed
qed

lemma load_first_failure:
  assumes ff: "first_to_fail client_resume pre x post"
    and e: "resume_failure client_resume (fst x) (snd x) = Some e"
  shows "fst (load_saved_accounts client_resume (pre @ x # post) self) = Inl e"
proof -
  let ?g = "\<lambda>x. (resume_instant client_resume (fst x) (snd x),
                  case resume_failure client_resume (fst x) (snd x) of
                    Some e \<Rightarrow> Inl e | None \<Rightarrow> Inr (fst x))"
  let ?t = "resume_instant client_resume (fst x) (snd x)"
  have rs: "fst (resume_all client_resume (pre @ x # post) self)
              = map ?g pre @ (?t, Inl e) # map ?g post"
    using e by (simp add: resume_all_outcomes)
  have a: "\<forall>y\<in>set (map ?g pre). isl (snd y) \<longrightarrow> ?t < fst y"
    using ff by (auto simp: first_to_fail_def list_all_iff split: option.splits)
  have b: "\<forall>y\<in>set (map ?g post). isl (snd y) \<longrightarrow> ?t \<le> fst y"
    using ff by (auto simp: first_to_fail_def list_all_iff split: option.splits)
  have "fst (load_saved_accounts client_resume (pre @ x # post) self)
          = gather (fst (resume_all client_resume (pre @ x # post) self))"
    by (simp add: load_saved_accounts_def split: prod.splits)
  then show ?thesis
    unfolding rs using gather_first_failure [OF a b] by simp
qed

text \<open>
  C1, as the code has it. \<open>load_saved_accounts\<close> starts one resume for every saved
  account: every resume ends at its own instant with its own outcome, whatever the
  others do, and every account with complete details is registered in \<open>clients\<close> and
  in \<open>models[Account]\<close> when the call is over, also when another account has failed.
  If every resume succeeds, the call returns the user ids of all the accounts, in the
  order of the saved accounts. If some resume fails, the call raises the failure of the
  account that is the first to fail (the earliest instant, and among equal instants the
  earlier account), as the outcome of the whole call: the caller gets no outcome for
  any other account.
\<close>

theorem load_saved_accounts_outcome:
  "fst (resume_all client_resume saved self)
     = map (\<lambda>x. (resume_instant client_resume (fst x) (snd x),
                  case resume_failure client_resume (fst x) (snd x) of
                    Some e \<Rightarrow> Inl e | None \<Rightarrow> Inr (fst x))) saved
   \<and> fst ` set (clients (snd (load_saved_accounts client_resume saved self)))
       = fst ` set (clients self) \<union> fst ` {x \<in> set saved. info_complete (snd x)}
   \<and> fst ` set (data (models_Account (snd (load_saved_accounts client_resume saved self))))
       = fst ` set (data (models_Account self)) \<union> fst ` {x \<in> set saved. info_complete (snd x)}
   \<and> ((\<forall>x\<in>set saved. resume_failure client_resume (fst x) (snd x) = None)
      \<longrightarrow> fst (load_saved_accounts client_resume saved self) = Inr (map fst saved))
   \<and> (saved = pre @ x # post \<and> first_to_fail client_resume pre x post
        \<and> resume_failure client_resume (fst x) (snd x) = Some e
      \<longrightarrow> fst (load_saved_accounts client_resume saved self) = Inl e)
   \<and> ((\<exists>x\<in>set saved. resume_failure client_resume (fst x) (snd x) \<noteq> None)
      \<longrightarrow> (\<exists>pre' x' post' e'. saved = pre' @ x' # post'
             \<and> first_to_fail client_resume pre' x' post'
             \<and> resume_failure client_resume (fst x') (snd x') = Some e'
             \<and> fst (load_saved_accounts client_resume saved self) = Inl e'))"
proof (intro conjI impI)
  show "fst (resume_all client_resume saved self)
     = map (\<lambda>x. (resume_instant client_resume (fst x) (snd x),
                  case resume_failure client_resume (fst x) (snd x) of
                    Some e \<Rightarrow> Inl e | None \<Rightarrow> Inr (fst x))) saved"
    by (rule resume_all_outcomes)
next
  have "snd (load_saved_accounts client_resume saved self)
          = snd (resume_all client_resume saved self)"
    by (simp add: load_saved_accounts_def split: prod.splits)
  then show "fst ` set (clients (snd (load_saved_accounts client_resume saved self)))
       = fst ` set (clients self) \<union> fst ` {x \<in> set saved. info_complete (snd x)}"
    and "fst ` set (data (models_Account (snd (load_saved_accounts client_resume saved self))))
       = fst ` set (data (models_Account self)) \<union> fst ` {x \<in> set saved. info_complete (snd x)}"
    using resume_all_registers [of client_resume saved self] by simp_all
next
  assume ok: "\<forall>x\<in>set saved. resume_failure client_resume (fst x) (snd x) = None"
  have result: "fst (load_saved_accounts client_resume saved self)
                  = gather (fst (resume_all client_resume saved self))"
    by (simp add: load_saved_accounts_def split: prod.splits)
  have rs: "fst (resume_all client_resume saved self)
              = map (\<lambda>x. (resume_instant client_resume (fst x) (snd x), Inr (fst x))) saved"
    unfolding resume_all_outcomes using ok by simp
  show "fst (load_saved_accounts client_resume saved self) = Inr (map fst saved)"
    unfolding result rs by (subst gather_all_succeed) (auto simp: comp_def)
next
  assume "saved = pre @ x # post \<and> first_to_fail client_resume pre x post
        \<and> resume_failure client_resume (fst x) (snd x) = Some e"
  then show "fst (load_saved_accounts client_resume saved self) = Inl e"
    using load_first_failure [of client_resume pre x post e self] by simp
next
  assume "\<exists>x\<in>set saved. resume_failure client_resume (fst x) (snd x) \<noteq> None"
  from first_minimum_exists [OF this, of "\<lambda>x. resume_instant client_resume (fst x) (snd x)"]
  obtain pre' x' post' where d: "saved = pre' @ x' # post'"
    "resume_failure client_resume (fst x') (snd x') \<noteq> None"
    "\<forall>y\<in>set pre'. resume_failure client_resume (fst y) (snd y) \<noteq> None
        \<longrightarrow> resume_instant client_resume (fst x') (snd x')
            < resume_instant client_resume (fst y) (snd y)"
    "\<forall>y\<in>set post'. resume_failure client_resume (fst y) (snd y) \<noteq> None
        \<longrightarrow> resume_instant client_resume (fst x') (snd x')
            \<le> resume_instant client_resume (fst y) (snd y)"
    by blast
  then have ff: "first_to_fail client_resume pre' x' post'"
    by (auto simp: first_to_fail_def list_all_iff)
  from d(2) obtain e' where e': "resume_failure client_resume (fst x') (snd x') = Some e'"
    by auto
  from load_first_failure [OF ff e', of self] d(1) ff e'
  show "\<exists>pre' x' post' e'. saved = pre' @ x' # post'
             \<and> first_to_fail client_resume pre' x' post'
             \<and> resume_failure client_resume (fst x') (snd x') = Some e'
             \<and> fst (load_saved_accounts client_resume saved self) = Inl e'"
    by blast
qed

theorem load_saved_accounts_outcome_witness:
  "resume_failure (\<lambda>u. (2, None)) ''@a1:x''
       [(''token'', ''t1''), (''device_id'', ''d1''), (''homeserver'', ''h'')] = None
   \<and> fst (load_saved_accounts (\<lambda>u. (2, None))
             [(''@a1:x'', [(''token'', ''t1''), (''device_id'', ''d1''), (''homeserver'', ''h'')])]
             Backend_init) = Inr [''@a1:x'']
   \<and> saved_accounts_example
       = [(''@a1:x'', [(''token'', ''t1''), (''device_id'', ''d1''), (''homeserver'', ''h'')]),
          (''@a2:x'', [(''token'', ''t2''), (''device_id'', ''d2''), (''homeserver'', ''h'')])]
         @ (''@a3:x'', [(''token'', ''t3''), (''device_id'', ''d3''), (''homeserver'', ''h'')]) # []
   \<and> first_to_fail client_resume_example2
         [(''@a1:x'', [(''token'', ''t1''), (''device_id'', ''d1''), (''homeserver'', ''h'')]),
          (''@a2:x'', [(''token'', ''t2''), (''device_id'', ''d2''), (''homeserver'', ''h'')])]
         (''@a3:x'', [(''token'', ''t3''), (''device_id'', ''d3''), (''homeserver'', ''h'')]) []
   \<and> resume_failure client_resume_example2 ''@a2:x''
         [(''token'', ''t2''), (''device_id'', ''d2''), (''homeserver'', ''h'')]
       = Some (MatrixError ''M_LATE'')
   \<and> resume_failure client_resume_example2 ''@a3:x''
         [(''token'', ''t3''), (''device_id'', ''d3''), (''homeserver'', ''h'')]
       = Some (MatrixError ''M_EARLY'')
   \<and> fst (load_saved_accounts client_resume_example2 saved_accounts_example Backend_init)
       = Inl (MatrixError ''M_EARLY'')
   \<and> fst ` set (clients (snd (load_saved_accounts client_resume_example2
                                 saved_accounts_example Backend_init)))
       = {''@a1:x'', ''@a2:x'', ''@a3:x''}
   \<and> (\<exists>pre' x' post' e'. saved_accounts_example = pre' @ x' # post'
         \<and> first_to_fail client_resume_example2 pre' x' post'
         \<and> resume_failure client_resume_example2 (fst x') (snd x') = Some e'
         \<and> fst (load_saved_accounts client_resume_example2 saved_accounts_example Backend_init)
             = Inl e')"
proof -
  let ?a1 = "(''@a1:x'', [(''token'', ''t1''), (''device_id'', ''d1''), (''homeserver'', ''h'')])"
  let ?a2 = "(''@a2:x'', [(''token'', ''t2''), (''device_id'', ''d2''), (''homeserver'', ''h'')])"
  let ?a3 = "(''@a3:x'', [(''token'', ''t3''), (''device_id'', ''d3''), (''homeserver'', ''h'')])"
  note one = load_saved_accounts_outcome [of "\<lambda>u. (2, None)" "[?a1]" Backend_init]
  note three = load_saved_accounts_outcome
      [of client_resume_example2 saved_accounts_example Backend_init "[?a1, ?a2]" ?a3 "[]"
          "MatrixError ''M_EARLY''"]
  note one_ok = one [THEN conjunct2, THEN conjunct2, THEN conjunct2, THEN conjunct1]
  note three_reg = three [THEN conjunct2, THEN conjunct1]
  note three_first = three [THEN conjunct2, THEN conjunct2, THEN conjunct2, THEN conjunct2,
      THEN conjunct1]
  note three_some = three [THEN conjunct2, THEN conjunct2, THEN conjunct2, THEN conjunct2,
      THEN conjunct2]
  have ok: "resume_failure (\<lambda>u. (2, None)) ''@a1:x''
       [(''token'', ''t1''), (''device_id'', ''d1''), (''homeserver'', ''h'')] = None"
    by (simp add: resume_failure_def)
  have f2: "resume_failure client_resume_example2 ''@a2:x''
         [(''token'', ''t2''), (''device_id'', ''d2''), (''homeserver'', ''h'')]
       = Some (MatrixError ''M_LATE'')"
    by (simp add: resume_failure_def client_resume_example2_def)
  have f3: "resume_failure client_resume_example2 ''@a3:x''
         [(''token'', ''t3''), (''device_id'', ''d3''), (''homeserver'', ''h'')]
       = Some (MatrixError ''M_EARLY'')"
    by (simp add: resume_failure_def client_resume_example2_def)
  have dec: "saved_accounts_example = [?a1, ?a2] @ ?a3 # []"
    by (simp add: saved_accounts_example_def)
  have i2: "resume_instant client_resume_example2 ''@a2:x''
         [(''token'', ''t2''), (''device_id'', ''d2''), (''homeserver'', ''h'')] = 3"
    and i3: "resume_instant client_resume_example2 ''@a3:x''
         [(''token'', ''t3''), (''device_id'', ''d3''), (''homeserver'', ''h'')] = 1"
    by (simp_all add: resume_instant_def info_complete_def client_resume_example2_def)
  have f1: "resume_failure client_resume_example2 ''@a1:x''
         [(''token'', ''t1''), (''device_id'', ''d1''), (''homeserver'', ''h'')] = None"
    by (simp add: resume_failure_def client_resume_example2_def)
  have ff: "first_to_fail client_resume_example2 [?a1, ?a2] ?a3 []"
    unfolding first_to_fail_def by (simp add: f1 f3 i2 i3)
  have all_ok: "\<forall>x\<in>set [?a1]. resume_failure (\<lambda>u. (2, None)) (fst x) (snd x) = None"
    using ok by simp
  have r1: "fst (load_saved_accounts (\<lambda>u. (2, None)) [?a1] Backend_init) = Inr [''@a1:x'']"
    using one_ok [THEN mp, OF all_ok] by simp
  have f3': "resume_failure client_resume_example2 (fst ?a3) (snd ?a3)
               = Some (MatrixError ''M_EARLY'')"
    using f3 by simp
  have r3: "fst (load_saved_accounts client_resume_example2 saved_accounts_example Backend_init)
              = Inl (MatrixError ''M_EARLY'')"
    by (rule three_first [THEN mp, OF conjI [OF dec conjI [OF ff f3']]])
  have complete: "fst ` {x \<in> set saved_accounts_example. info_complete (snd x)}
                    = {''@a1:x'', ''@a2:x'', ''@a3:x''}"
    unfolding saved_accounts_example_def
    by (auto simp: info_complete_def intro: rev_image_eqI)
  have reg: "fst ` set (clients (snd (load_saved_accounts client_resume_example2
                                 saved_accounts_example Backend_init)))
       = {''@a1:x'', ''@a2:x'', ''@a3:x''}"
    unfolding three_reg complete by (simp add: Backend_init_def)
  have some: "\<exists>x\<in>set saved_accounts_example.
                resume_failure client_resume_example2 (fst x) (snd x) \<noteq> None"
    unfolding saved_accounts_example_def using f2 by simp
  note ex = three_some [THEN mp, OF some]
  show ?thesis
    by (intro conjI) (rule ok r1 dec ff f2 f3 r3 reg ex)+
qed

text \<open>
  C1 as the spec states it fails: with three saved accounts of which the second fails
  to resume, \<open>load_saved_accounts\<close> does not report one outcome per account; it raises
  the failure of the second account.
\<close>

theorem load_saved_accounts_raises:
  "fst (load_saved_accounts client_resume_example saved_accounts_example Backend_init)
     = Inl (MatrixError ''M_UNKNOWN_TOKEN'')"
  by (simp add: load_saved_accounts_def resume_def resume_client_def gather_def
        saved_accounts_example_def client_resume_example_def Let_def)

subsection \<open>The profile cache\<close>

lemma filter_update_length:
  "i < length cs \<Longrightarrow>
   length (filter P (cs[i := x])) + (if P (cs ! i) then 1 else 0)
     = length (filter P cs) + (if P x then 1 else 0)"
proof (induction cs arbitrary: i)
  case Nil
  then show ?case by simp
next
  case (Cons c cs)
  then show ?case by (cases i) auto
qed

lemma lock_held_by_fetch_step:
  assumes inv: "lock_held_by_fetch s"
  shows "lock_held_by_fetch (get_profile_step i response s)"
proof (cases "i < length (calls s)")
  case False
  then show ?thesis using inv by (simp add: get_profile_step_def)
next
  case True
  have upd: "length (filter (\<lambda>c. c = Fetching u) ((calls s)[i := x]))
               + (if calls s ! i = Fetching u then 1 else 0)
             = length (filter (\<lambda>c. c = Fetching u) (calls s)) + (if x = Fetching u then 1 else 0)"
    for u x
    using filter_update_length [OF True, of "\<lambda>c. c = Fetching u" x] by simp
  from inv have I: "length (filter (\<lambda>c. c = Fetching u) (calls s))
                      = (if locked (get_profile_locks s u) then 1 else 0)" for u
    by (simp add: lock_held_by_fetch_def in_flight_def)
  have acquire: "lock_held_by_fetch (acquire_and_fetch i v ws s)"
    if "\<not> locked (get_profile_locks s v)" "\<And>u. calls s ! i \<noteq> Fetching u" for v ws
  proof -
    have "length (filter (\<lambda>c. c = Fetching u) ((calls s)[i := Fetching v]))
            = (if locked (((get_profile_locks s)(v := \<lparr>locked = True, waiters = ws\<rparr>)) u)
               then 1 else 0)" for u
      using upd [of u "Fetching v"] I [of u] that by (auto split: if_splits)
    then show ?thesis
      by (simp add: lock_held_by_fetch_def acquire_and_fetch_def in_flight_def)
  qed
  have other: "lock_held_by_fetch
       (s\<lparr>get_profile_locks := (get_profile_locks s)(v := (get_profile_locks s v)\<lparr>waiters := ws\<rparr>),
          calls := (calls s)[i := x]\<rparr>)"
    if "\<And>u. calls s ! i \<noteq> Fetching u" "\<And>u. x \<noteq> Fetching u" for x v ws
  proof -
    have "length (filter (\<lambda>c. c = Fetching u) ((calls s)[i := x]))
            = (if locked (((get_profile_locks s)(v := (get_profile_locks s v)\<lparr>waiters := ws\<rparr>)) u)
               then 1 else 0)" for u
      using upd [of u x] I [of u] that by (auto split: if_splits)
    then show ?thesis
      by (simp add: lock_held_by_fetch_def in_flight_def)
  qed
  have plain: "lock_held_by_fetch (s\<lparr>calls := (calls s)[i := x]\<rparr>)"
    if "\<And>u. calls s ! i \<noteq> Fetching u" "\<And>u. x \<noteq> Fetching u" for x
  proof -
    have "length (filter (\<lambda>c. c = Fetching u) ((calls s)[i := x]))
            = (if locked (get_profile_locks s u) then 1 else 0)" for u
      using upd [of u x] I [of u] that by (auto split: if_splits)
    then show ?thesis
      by (simp add: lock_held_by_fetch_def in_flight_def)
  qed
  show ?thesis
  proof (cases "calls s ! i")
    case (Called v)
    show ?thesis
      using True Called plain [of "Returned r" for r] acquire [of v "[]"]
        other [of "WaitLock v" v "waiters (get_profile_locks s v) @ [i]"]
      by (simp add: get_profile_step_def Let_def split: option.splits)
  next
    case (WaitLock v)
    show ?thesis
      using True WaitLock inv acquire [of v]
      by (simp add: get_profile_step_def Let_def split: list.splits)
  next
    case (Fetching v)
    have locked: "locked (get_profile_locks s v)"
    proof (rule ccontr)
      assume "\<not> locked (get_profile_locks s v)"
      then have "length (filter (\<lambda>c. c = Fetching v) (calls s)) = 0" using I [of v] by simp
      moreover have "calls s ! i \<in> set (calls s)" using True by simp
      ultimately show False using Fetching by (auto simp: filter_empty_conv)
    qed
    have rel: "length (filter (\<lambda>c. c = Fetching u) ((calls s)[i := Returned r]))
                 = (if locked (((get_profile_locks s)
                                  (v := (get_profile_locks s v)\<lparr>locked := False\<rparr>)) u)
                    then 1 else 0)" for u r
      using I [of u] upd [of u "Returned r"] Fetching locked by (auto split: if_splits)
    show ?thesis
    proof (cases response)
      case (Inl e)
      then show ?thesis
        using True Fetching rel [of _ "Inl e"]
        by (simp add: get_profile_step_def release_def lock_held_by_fetch_def in_flight_def)
    next
      case (Inr profile)
      then show ?thesis
        using True Fetching rel [of _ "Inr profile"]
        by (simp add: get_profile_step_def release_def lock_held_by_fetch_def in_flight_def)
    qed
  next
    case (Returned r)
    then show ?thesis using True inv by (simp add: get_profile_step_def)
  qed
qed

lemma get_profile_one_fetch_in_flight:
  "in_flight u (get_profile_run schedule (get_profile_calls us)) \<le> 1"
proof -
  have run: "lock_held_by_fetch s \<Longrightarrow> lock_held_by_fetch (get_profile_run schedule s)" for s
    unfolding get_profile_run_def
    by (induction schedule arbitrary: s) (auto simp: lock_held_by_fetch_step)
  have "filter (\<lambda>c. c = Fetching v) (map Called us) = []" for v
    by (induction us) auto
  then have "lock_held_by_fetch (get_profile_calls us)"
    by (simp add: lock_held_by_fetch_def get_profile_calls_def in_flight_def)
  from run [OF this] show ?thesis
    by (simp add: lock_held_by_fetch_def)
qed

text \<open>
  C2 on two concurrent calls \<open>get_profile(''@u:x'')\<close> with an empty cache. The first
  call misses the cache, takes the lock and suspends in its fetch; the second call
  misses the cache too and waits for the lock; the first call stores the profile and
  releases the lock; the second call takes the lock and, without looking at the cache
  again, fetches the profile a second time, although the cache holds it. The lock keeps
  the two fetches apart (\<open>get_profile_one_fetch_in_flight\<close>) but does not spare the
  second one.
\<close>

theorem get_profile_redundant_fetch:
  "fetches (get_profile_run
      [(0, Inr ''p''), (1, Inr ''p''), (0, Inr ''p''), (1, Inr ''p''), (1, Inr ''p'')]
      (get_profile_calls [''@u:x'', ''@u:x'']))
     = [(''@u:x'', False), (''@u:x'', True)]"
  by (simp add: get_profile_run_def get_profile_calls_def get_profile_step_def
        acquire_and_fetch_def release_def Let_def)

subsection \<open>The data of the main pane\<close>

lemma fold_append_rows:
  "fold (\<lambda>x rows. rows @ [f x]) xs rows = rows @ map f xs"
  by (induction xs arbitrary: rows) simp_all

lemma fold_append_blocks:
  "fold (\<lambda>a rows. fold (\<lambda>x rows. rows @ [f a x]) (g a) (rows @ [h a])) as rows
     = rows @ concat (map (\<lambda>a. h a # map (f a) (g a)) as)"
  by (induction as arbitrary: rows) (simp_all add: fold_append_rows)

text \<open>
  C9. \<open>get_flat_mainpane_data\<close> returns, for the accounts in ascending order of their
  user ids, the row of the account followed at once by the rows of the rooms of
  \<open>models[Room, user_id]\<close> in ascending order of their room ids. The row of an account
  has type \<open>Account\<close> and the user id as \<open>id\<close>; the row of a room has type \<open>Room\<close>,
  the user id of the account, \<open>/\<close> and the room id as \<open>id\<close>, and the user id of the
  account as \<open>user_id\<close>.
\<close>

theorem get_flat_mainpane_data_layout:
  "(\<exists>accounts rooms.
      mset accounts = mset (Model_values (models_Account self))
    \<and> sorted (map user_id accounts)
    \<and> (\<forall>u. mset (rooms u) = mset (Model_values (models_Room self u))
           \<and> sorted (map room_id (rooms u)))
    \<and> get_flat_mainpane_data account_serialized room_serialized self
        = concat (map (\<lambda>account. account_row account_serialized account
                          # map (room_row room_serialized account) (rooms (user_id account)))
                      accounts))
   \<and> map_of (account_row account_serialized a) ''type'' = Some (Str ''Account'')
   \<and> map_of (account_row account_serialized a) ''id'' = Some (Str (user_id a))
   \<and> map_of (account_row account_serialized a) ''user_id'' = Some (Str (user_id a))
   \<and> map_of (room_row room_serialized a r) ''type'' = Some (Str ''Room'')
   \<and> map_of (room_row room_serialized a r) ''id'' = Some (Str (user_id a @ ''/'' @ room_id r))
   \<and> map_of (room_row room_serialized a r) ''user_id'' = Some (Str (user_id a))"
proof -
  let ?accounts = "sorted_accounts (Model_values (models_Account self))"
  let ?rooms = "\<lambda>u. sorted_rooms (Model_values (models_Room self u))"
  have "mset ?accounts = mset (Model_values (models_Account self))"
    "sorted (map user_id ?accounts)"
    "\<forall>u. mset (?rooms u) = mset (Model_values (models_Room self u))
           \<and> sorted (map room_id (?rooms u))"
    by (simp_all add: sorted_accounts_def sorted_rooms_def)
  moreover have "get_flat_mainpane_data account_serialized room_serialized self
        = concat (map (\<lambda>account. account_row account_serialized account
                          # map (room_row room_serialized account) (?rooms (user_id account)))
                      ?accounts)"
    by (simp add: get_flat_mainpane_data_def fold_append_blocks)
  ultimately have "\<exists>accounts rooms.
      mset accounts = mset (Model_values (models_Account self))
    \<and> sorted (map user_id accounts)
    \<and> (\<forall>u. mset (rooms u) = mset (Model_values (models_Room self u))
           \<and> sorted (map room_id (rooms u)))
    \<and> get_flat_mainpane_data account_serialized room_serialized self
        = concat (map (\<lambda>account. account_row account_serialized account
                          # map (room_row room_serialized account) (rooms (user_id account)))
                      accounts)"
    by (intro exI [of _ ?accounts] exI [of _ ?rooms]) simp
  then show ?thesis
    by (simp add: account_row_def room_row_def)
qed

end
